theory Spec2Isabelle
  imports Main "HOL-Library.Product_Lexorder"
begin

text \<open>
  A model of the points ledger and ranking engine of the leaderboard backend: the
  \<open>User\<close> and \<open>Claim\<close> collections, the routes that submit and invalidate claims
  (\<open>routes/claimRoutes.js\<close>, with the post-save hook of \<open>models/Claim.js\<close>) and the
  routes that rank (\<open>routes/leaderboardRoutes.js\<close>, with \<open>User.getTopUsers\<close>). A
  route is a function from the state of the two collections to an answer and, where it
  writes, the new state; what a route reads from its environment (the clock, the random
  draw, whether a store update resolves) is an argument. Requests are served one after
  another.
\<close>

section \<open>Data model\<close>

text \<open>
  Document ids (MongoDB ObjectIds) are natural numbers; instants (JavaScript \<open>Date\<close>s)
  are integers, the milliseconds since the epoch. The counters \<open>totalPoints\<close> and
  \<open>claimsCount\<close> are JavaScript Numbers holding integers; they are modelled as
  unbounded integers (the \<open>$inc\<close> updates of the routes run no schema validator, so
  they may become negative).
\<close>

type_synonym oid = nat
type_synonym time = int

datatype claim_type = Random | Bonus | Manual

text \<open>\<open>models/User.js\<close>: the fields the ledger and the rankings read or write.\<close>

record user =
  uid :: oid
  totalPoints :: int
  claimsCount :: int
  isActive :: bool
  lastActivity :: time
  userCreatedAt :: time

text \<open>\<open>models/Claim.js\<close>.\<close>

record claim =
  cid :: oid
  userId :: oid
  points :: int
  claimType :: claim_type
  isValid :: bool
  createdAt :: time

text \<open>
  The two collections, the next ObjectId to hand out and what \<open>console.error\<close> has
  printed.
\<close>

record db =
  users :: "user list"
  claims :: "claim list"
  nextId :: oid
  errlog :: "string list"

datatype error =
    BadRequest      \<comment> \<open>status 400\<close>
  | NotFound        \<comment> \<open>status 404\<close>
  | ServerError     \<comment> \<open>status 500\<close>

section \<open>Store primitives\<close>

text \<open>\<open>Model.findById\<close>: the first document with the id, or \<open>null\<close>.\<close>

definition findUserById :: "user list \<Rightarrow> oid \<Rightarrow> user option" where
  "findUserById us i = find (\<lambda>u. uid u = i) us"

definition findClaimById :: "claim list \<Rightarrow> oid \<Rightarrow> claim option" where
  "findClaimById cs i = find (\<lambda>c. cid c = i) cs"

text \<open>
  \<open>Model.findByIdAndUpdate\<close>: the update is applied to the first document with the id;
  no document with the id, no change.
\<close>

fun updateUserById :: "oid \<Rightarrow> (user \<Rightarrow> user) \<Rightarrow> user list \<Rightarrow> user list" where
  "updateUserById i f [] = []"
| "updateUserById i f (u # us) =
     (if uid u = i then f u # us else u # updateUserById i f us)"

fun updateClaimById :: "oid \<Rightarrow> (claim \<Rightarrow> claim) \<Rightarrow> claim list \<Rightarrow> claim list" where
  "updateClaimById i f [] = []"
| "updateClaimById i f (c # cs) =
     (if cid c = i then f c # cs else c # updateClaimById i f cs)"

section \<open>Claim submission: \<open>POST /api/claims\<close>\<close>

text \<open>
  The request body after JSON parsing. \<open>reqPoints = None\<close> and
  \<open>reqClaimType = None\<close> are absent fields.
\<close>

record claim_req =
  reqUserId :: oid
  reqPoints :: "int option"
  reqClaimType :: "claim_type option"

text \<open>
  \<open>validateClaim\<close> with \<open>handleValidationErrors\<close>: \<open>points\<close> is optional and, when
  present, an integer from 1 to 10. (The id format and the claim type are well-formed by
  their types here.)
\<close>

definition validateClaim :: "claim_req \<Rightarrow> bool" where
  "validateClaim req =
     (case reqPoints req of None \<Rightarrow> True | Some p \<Rightarrow> 1 \<le> p \<and> p \<le> 10)"

text \<open>
  The post-save hook of \<open>Claim\<close>. \<open>updOk\<close> says whether the promise of
  \<open>User.findByIdAndUpdate\<close> resolves; when it rejects the hook catches the error and
  prints it. \<open>tHook\<close> is the hook's \<open>new Date()\<close>.
\<close>

definition postSave :: "bool \<Rightarrow> time \<Rightarrow> claim \<Rightarrow> db \<Rightarrow> db" where
  "postSave updOk tHook doc s =
     (if isValid doc then
        (if updOk then
           s\<lparr>users := updateUserById (userId doc)
                (\<lambda>u. u\<lparr>totalPoints := totalPoints u + points doc,
                        claimsCount := claimsCount u + 1,
                        lastActivity := tHook\<rparr>) (users s)\<rparr>
         else s\<lparr>errlog := errlog s @ [''Error updating user points:'']\<rparr>)
      else s)"

text \<open>
  \<open>claim.save()\<close> rejects when the schema validators or the pre-save hook of
  \<open>Claim\<close> refuse the document (\<open>points\<close> is required and lies in 1..10); the
  handler's \<open>catch\<close> prints the error and answers 500, with nothing written.
\<close>

definition saveFailed :: "db \<Rightarrow> (error + claim) \<times> db" where
  "saveFailed s = (Inl ServerError, s\<lparr>errlog := errlog s @ [''Error creating claim:'']\<rparr>)"

text \<open>
  The route handler. \<open>draw\<close> is the value of \<open>Math.floor(Math.random() * 10)\<close>,
  \<open>tSave\<close> the instant \<open>claim.save()\<close> stamps as \<open>createdAt\<close>. The store's
  other rejections are not modelled: one of \<open>User.findById\<close> or of the insertion writes
  nothing, one of the final \<open>populate\<close> comes after both writes.
\<close>

definition submitClaim ::
  "claim_req \<Rightarrow> nat \<Rightarrow> time \<Rightarrow> time \<Rightarrow> bool \<Rightarrow> db \<Rightarrow> (error + claim) \<times> db" where
  "submitClaim req draw tSave tHook updOk s =
     (if \<not> validateClaim req then (Inl BadRequest, s)
      else
        (let ctype = (case reqClaimType req of None \<Rightarrow> Random | Some t \<Rightarrow> t) in
         case findUserById (users s) (reqUserId req) of
           None \<Rightarrow> (Inl NotFound, s)
         | Some u \<Rightarrow>
             if \<not> isActive u then (Inl NotFound, s)
             else
               (let claimPoints =
                      (if ctype = Random \<and> reqPoints req = None
                       then Some (int draw + 1) else reqPoints req)
                in case claimPoints of
                     None \<Rightarrow> saveFailed s
                   | Some p \<Rightarrow>
                       if p < 1 \<or> p > 10 then saveFailed s
                       else
                         (let doc = \<lparr>cid = nextId s, userId = reqUserId req,
                                     points = p, claimType = ctype,
                                     isValid = True, createdAt = tSave\<rparr>;
                              s1 = s\<lparr>claims := claims s @ [doc],
                                     nextId := Suc (nextId s)\<rparr>
                          in (Inr doc, postSave updOk tHook doc s1)))))"

section \<open>Claim invalidation: \<open>DELETE /api/claims/:id\<close>\<close>

text \<open>
  \<open>Claim.findByIdAndUpdate(id, {isValid: false}, {new: true})\<close> answers the updated
  document whatever its earlier \<open>isValid\<close>. What follows works on \<open>users\<close>: the
  \<open>populate\<close> of the claim's user and the route's \<open>User.findByIdAndUpdate\<close>.
  \<open>usersOk\<close> says whether these two resolve; when one rejects, the handler's \<open>catch\<close>
  prints the error and answers 500, with the claim already written invalid and the totals
  not lowered. \<open>populate\<close> leaves \<open>userId\<close> null when the user is gone, and reading
  \<open>claim.userId._id\<close> then throws into the same \<open>catch\<close>. (A rejection of the
  claim's own update writes nothing and is not modelled.)
\<close>

definition revokeFailed :: "db \<Rightarrow> (error + claim) \<times> db" where
  "revokeFailed s = (Inl ServerError, s\<lparr>errlog := errlog s @ [''Error invalidating claim:'']\<rparr>)"

definition revokeClaim :: "oid \<Rightarrow> bool \<Rightarrow> db \<Rightarrow> (error + claim) \<times> db" where
  "revokeClaim i usersOk s =
     (case findClaimById (claims s) i of
        None \<Rightarrow> (Inl NotFound, s)
      | Some c0 \<Rightarrow>
          (let c = c0\<lparr>isValid := False\<rparr>;
               s1 = s\<lparr>claims := updateClaimById i (\<lambda>c. c\<lparr>isValid := False\<rparr>) (claims s)\<rparr>
           in if \<not> usersOk then revokeFailed s1
              else
                case findUserById (users s1) (userId c) of
                  None \<Rightarrow> revokeFailed s1
                | Some u \<Rightarrow>
                    (Inr c,
                     s1\<lparr>users := updateUserById (userId c)
                            (\<lambda>u. u\<lparr>totalPoints := totalPoints u - points c,
                                    claimsCount := claimsCount u - 1\<rparr>) (users s1)\<rparr>)))"

section \<open>Sequences of operations and the aggregate invariant\<close>

text \<open>
  One request of the two writing routes, with what its environment supplies: for a
  submission the random draw, the two clock readings and whether the aggregate update of
  the post-save hook resolves; for an invalidation whether its work on \<open>users\<close>
  resolves.
\<close>

datatype op = Submit claim_req nat time time bool | Revoke oid bool

fun step :: "op \<Rightarrow> db \<Rightarrow> db" where
  "step (Submit req draw tSave tHook updOk) s = snd (submitClaim req draw tSave tHook updOk s)"
| "step (Revoke i usersOk) s = snd (revokeClaim i usersOk s)"

fun run :: "op list \<Rightarrow> db \<Rightarrow> db" where
  "run [] s = s"
| "run (x # xs) s = run xs (step x s)"

text \<open>The currently valid claims of a participant, in ledger order.\<close>

definition validClaimsOf :: "claim list \<Rightarrow> oid \<Rightarrow> claim list" where
  "validClaimsOf cs i = filter (\<lambda>c. userId c = i \<and> isValid c) cs"

definition consistent :: "db \<Rightarrow> bool" where
  "consistent s =
     (\<forall>u \<in> set (users s).
        totalPoints u = sum_list (map points (validClaimsOf (claims s) (uid u))) \<and>
        claimsCount u = int (length (validClaimsOf (claims s) (uid u))))"




text \<open>
  A sequence of requests in which every update of the aggregates resolves, that of the
  post-save hook and that of the invalidation route, and no invalidation names a claim
  that is already invalid when it is served.
\<close>

fun undisturbed :: "op list \<Rightarrow> db \<Rightarrow> bool" where
  "undisturbed [] s = True"
| "undisturbed (Submit req draw tSave tHook updOk # xs) s =
     (updOk \<and> undisturbed xs (step (Submit req draw tSave tHook updOk) s))"
| "undisturbed (Revoke i usersOk # xs) s =
     (usersOk \<and>
      (case findClaimById (claims s) i of None \<Rightarrow> True | Some c \<Rightarrow> isValid c) \<and>
      undisturbed xs (step (Revoke i usersOk) s))"

section \<open>Rankings: \<open>routes/leaderboardRoutes.js\<close>\<close>

datatype badge = Gold | Silver | Bronze | Top10 | Top50 | Ranked

definition getRankBadge :: "nat \<Rightarrow> badge" where
  "getRankBadge r =
     (if r = 1 then Gold
      else if r = 2 then Silver
      else if r = 3 then Bronze
      else if r \<le> 10 then Top10
      else if r \<le> 50 then Top50
      else Ranked)"

text \<open>A document of a result list with the rank and badge the route adds to it.\<close>

record 'a ranked =
  doc :: 'a
  rank :: nat
  badge :: badge

text \<open>
  \<open>xs.map((x, index) => ({...x, rank: base + index, badge: getRankBadge(base + index)}))\<close>
\<close>

definition withRanks :: "nat \<Rightarrow> 'a list \<Rightarrow> 'a ranked list" where
  "withRanks base xs =
     map (\<lambda>(index, x). \<lparr>doc = x, rank = base + index, badge = getRankBadge (base + index)\<rparr>)
       (enumerate 0 xs)"

text \<open>
  \<open>.sort({ totalPoints: -1, createdAt: 1 })\<close>: ascending in the pair (minus the total,
  creation instant), compared lexicographically. Documents equal in both keys stay in
  collection order (the store leaves their order open).
\<close>

definition sortKey :: "user \<Rightarrow> int \<times> time" where
  "sortKey u = (- totalPoints u, userCreatedAt u)"

text \<open>\<open>.limit(n)\<close> of a query: \<open>limit(0)\<close> is no limit.\<close>

definition limitDocs :: "nat \<Rightarrow> 'a list \<Rightarrow> 'a list" where
  "limitDocs n xs = (if n = 0 then xs else take n xs)"

text \<open>\<open>User.getTopUsers\<close> (\<open>models/User.js\<close>).\<close>

definition getTopUsers :: "nat \<Rightarrow> user list \<Rightarrow> user list" where
  "getTopUsers limit us = limitDocs limit (sort_key sortKey (filter isActive us))"

text \<open>
  \<open>GET /api/leaderboard\<close>; \<open>limitNum\<close> is \<open>parseInt(limit)\<close>, a natural number here.
  (The optional statistics and the \<open>meta\<close> block of the answer are left out.)
\<close>

definition leaderboard :: "nat \<Rightarrow> db \<Rightarrow> user ranked list" where
  "leaderboard limitNum s = withRanks 1 (getTopUsers limitNum (users s))"

subsection \<open>\<open>GET /api/leaderboard/user/:userId/position\<close>\<close>

text \<open>
  The answer: the participant with rank and badge, and the context list, each of whose
  documents carries \<open>isCurrentUser\<close>. (The percentile, a floating-point value, is left
  out.)
\<close>

record position_res =
  posUser :: "user ranked"
  posContext :: "(user \<times> bool) ranked list"

definition userPosition :: "oid \<Rightarrow> db \<Rightarrow> error + position_res" where
  "userPosition i s =
     (case findUserById (users s) i of
        None \<Rightarrow> Inl NotFound
      | Some u \<Rightarrow>
          if \<not> isActive u then Inl NotFound
          else
            (let usersAbove =
                   length (filter (\<lambda>v. isActive v \<and> totalPoints v > totalPoints u) (users s));
                 rnk = usersAbove + 1;
                 context = 2;
                 contextUsers =
                   take (context * 2 + 1)
                     (drop (nat (max 0 (int rnk - int context - 1)))
                        (sort_key sortKey (filter isActive (users s))));
                 base = nat (max 1 (int rnk - int context))
             in Inr \<lparr>posUser = \<lparr>doc = u, rank = rnk, badge = getRankBadge rnk\<rparr>,
                     posContext = withRanks base (map (\<lambda>v. (v, uid v = i)) contextUsers)\<rparr>))"

subsection \<open>Calendar arithmetic of \<open>Date\<close>\<close>

text \<open>
  The \<open>Date\<close> methods of \<open>getDateRange\<close> work in local time. After the ECMAScript
  definitions, the host's time zone is the offset of local time from UTC in milliseconds,
  asked for a UTC instant (\<open>LocalTZA(t, true)\<close>) or for a local time value
  (\<open>LocalTZA(t, false)\<close>); the two differ around a change of the offset.
\<close>

record zone =
  tzaOfUTC :: "time \<Rightarrow> int"
  tzaOfLocal :: "int \<Rightarrow> int"

definition LocalTime :: "zone \<Rightarrow> time \<Rightarrow> int" where
  "LocalTime z t = t + tzaOfUTC z t"

definition UTC :: "zone \<Rightarrow> int \<Rightarrow> time" where
  "UTC z t = t - tzaOfLocal z t"

text \<open>A zone whose offset never changes.\<close>

definition fixedZone :: "int \<Rightarrow> zone" where
  "fixedZone c = \<lparr>tzaOfUTC = (\<lambda>t. c), tzaOfLocal = (\<lambda>t. c)\<rparr>"

definition msPerDay :: int where
  "msPerDay = 86400000"

definition Day :: "int \<Rightarrow> int" where
  "Day t = t div msPerDay"

definition TimeWithinDay :: "int \<Rightarrow> int" where
  "TimeWithinDay t = t mod msPerDay"

definition MakeDate :: "int \<Rightarrow> int \<Rightarrow> int" where
  "MakeDate day tm = day * msPerDay + tm"

text \<open>
  Day number of the first day of month \<open>m\<close> (0..11) of year \<open>y\<close> in the Gregorian
  calendar, and the year and month (0..11) of a day number.
\<close>

definition dayOfMonthStart :: "int \<Rightarrow> int \<Rightarrow> int" where
  "dayOfMonthStart y m =
     (let y1 = (if m < 2 then y - 1 else y);
          era = y1 div 400;
          yoe = y1 mod 400;
          mp = (if m < 2 then m + 10 else m - 2);
          doy = (153 * mp + 2) div 5;
          doe = yoe * 365 + yoe div 4 - yoe div 100 + doy
      in era * 146097 + doe - 719468)"

definition yearMonthOfDay :: "int \<Rightarrow> int \<times> int" where
  "yearMonthOfDay z0 =
     (let z = z0 + 719468;
          era = z div 146097;
          doe = z mod 146097;
          yoe = (doe - doe div 1460 + doe div 36524 - doe div 146096) div 365;
          doy = doe - (365 * yoe + yoe div 4 - yoe div 100);
          mp = (5 * doy + 2) div 153;
          m = (if mp < 10 then mp + 2 else mp - 10);
          y = yoe + era * 400 + (if m < 2 then 1 else 0)
      in (y, m))"

definition YearFromTime :: "int \<Rightarrow> int" where
  "YearFromTime t = fst (yearMonthOfDay (Day t))"

definition MonthFromTime :: "int \<Rightarrow> int" where
  "MonthFromTime t = snd (yearMonthOfDay (Day t))"

text \<open>
  \<open>MakeDay\<close>: the day number of day 1 of the month, the month taken modulo 12 with the
  carry into the year, plus \<open>date - 1\<close>. The day of the month of a time value is its
  distance from day 1 of its month, counted from 1.
\<close>

definition MakeDay :: "int \<Rightarrow> int \<Rightarrow> int \<Rightarrow> int" where
  "MakeDay year month date = dayOfMonthStart (year + month div 12) (month mod 12) + date - 1"

definition DateFromTime :: "int \<Rightarrow> int" where
  "DateFromTime t = Day t - MakeDay (YearFromTime t) (MonthFromTime t) 1 + 1"

text \<open>The getters and setters, on the local time of the instant.\<close>

definition getFullYear :: "zone \<Rightarrow> time \<Rightarrow> int" where
  "getFullYear z t = YearFromTime (LocalTime z t)"

definition getMonth :: "zone \<Rightarrow> time \<Rightarrow> int" where
  "getMonth z t = MonthFromTime (LocalTime z t)"

definition getDate :: "zone \<Rightarrow> time \<Rightarrow> int" where
  "getDate z t = DateFromTime (LocalTime z t)"

text \<open>\<open>setHours(0, 0, 0, 0)\<close>.\<close>

definition setHours0 :: "zone \<Rightarrow> time \<Rightarrow> time" where
  "setHours0 z t = UTC z (MakeDate (Day (LocalTime z t)) 0)"

definition setDate :: "zone \<Rightarrow> time \<Rightarrow> int \<Rightarrow> time" where
  "setDate z t dt =
     (let l = LocalTime z t
      in UTC z (MakeDate (MakeDay (YearFromTime l) (MonthFromTime l) dt) (TimeWithinDay l)))"

definition setMonth :: "zone \<Rightarrow> time \<Rightarrow> int \<Rightarrow> time" where
  "setMonth z t m =
     (let l = LocalTime z t
      in UTC z (MakeDate (MakeDay (YearFromTime l) m (DateFromTime l)) (TimeWithinDay l)))"

definition setFullYear :: "zone \<Rightarrow> time \<Rightarrow> int \<Rightarrow> time" where
  "setFullYear z t y =
     (let l = LocalTime z t
      in UTC z (MakeDate (MakeDay y (MonthFromTime l) (DateFromTime l)) (TimeWithinDay l)))"

text \<open>
  \<open>getDateRange\<close>. \<open>now\<close> and \<open>start0\<close> are its two \<open>new Date()\<close>, in that order.
\<close>

definition getDateRange :: "zone \<Rightarrow> string \<Rightarrow> time \<Rightarrow> time \<Rightarrow> (time \<times> time) option" where
  "getDateRange z period now start0 =
     (if period = ''today'' then Some (setHours0 z start0, now)
      else if period = ''week'' then Some (setDate z start0 (getDate z now - 7), now)
      else if period = ''month'' then Some (setMonth z start0 (getMonth z now - 1), now)
      else if period = ''year'' then Some (setFullYear z start0 (getFullYear z now - 1), now)
      else None)"

subsection \<open>\<open>GET /api/leaderboard/top/:period\<close>\<close>






section \<open>Example states\<close>

text \<open>
  Participant X of the scenario with three claims of 5, 3 and 2 points: one participant
  without claims, and the three submissions with explicit points.
\<close>

definition userX :: user where
  "userX = \<lparr>uid = 1, totalPoints = 0, claimsCount = 0, isActive = True,
             lastActivity = 0, userCreatedAt = 0\<rparr>"

definition dbX :: db where
  "dbX = \<lparr>users = [userX], claims = [], nextId = 100, errlog = []\<rparr>"

definition reqX :: "oid \<Rightarrow> int \<Rightarrow> claim_req" where
  "reqX i p = \<lparr>reqUserId = i, reqPoints = Some p, reqClaimType = Some Manual\<rparr>"

definition opsX :: "op list" where
  "opsX = [Submit (reqX 1 5) 0 1000 1001 True, Submit (reqX 1 3) 0 2000 2001 True,
           Submit (reqX 1 2) 0 3000 3001 True]"

text \<open>
  Participants A and B of the tie scenario: no points, A registered before B (and stored
  after B).
\<close>

definition userA :: user where
  "userA = \<lparr>uid = 1, totalPoints = 0, claimsCount = 0, isActive = True,
             lastActivity = 100, userCreatedAt = 100\<rparr>"

definition userB :: user where
  "userB = \<lparr>uid = 2, totalPoints = 0, claimsCount = 0, isActive = True,
             lastActivity = 200, userCreatedAt = 200\<rparr>"

definition dbAB :: db where
  "dbAB = \<lparr>users = [userB, userA], claims = [], nextId = 100, errlog = []\<rparr>"

text \<open>
  A league of five active participants with 50, 40, 30, 20 and 10 points (ids 1 to 5)
  and an inactive one with 60 points (id 6).
\<close>

definition participant :: "oid \<Rightarrow> int \<Rightarrow> int \<Rightarrow> bool \<Rightarrow> user" where
  "participant i p n a = \<lparr>uid = i, totalPoints = p, claimsCount = n, isActive = a,
                           lastActivity = 0, userCreatedAt = int i\<rparr>"

definition dbL :: db where
  "dbL = \<lparr>users = [participant 6 60 9 False, participant 3 30 5 True, participant 1 50 7 True,
                   participant 5 10 2 True, participant 2 40 6 True, participant 4 20 4 True],
           claims = [], nextId = 100, errlog = []\<rparr>"

text \<open>
  The window scenario. The host's zone is five and a half hours ahead of UTC and the clock
  stands at 2024-03-31 12:00 UTC, 17:30 local time; participant 3 claimed 7 points eight
  days earlier, participants 1 and 2 claimed 5 and 3 points one and two hours ago.
\<close>

definition zoneW :: zone where
  "zoneW = fixedZone 19800000"

definition nowW :: time where
  "nowW = 1711886400000"

definition dbW :: db where
  "dbW = run [Submit (reqX 3 7) 0 (nowW - 8 * msPerDay) (nowW - 8 * msPerDay) True,
              Submit (reqX 2 3) 0 (nowW - 7200000) (nowW - 7200000) True,
              Submit (reqX 1 5) 0 (nowW - 3600000) (nowW - 3600000) True]
           \<lparr>users = [participant 1 0 0 True, participant 2 0 0 True, participant 3 0 0 True],
            claims = [], nextId = 100, errlog = []\<rparr>"

text \<open>
  A league with a tie: 50, 40 and 30 points (ids 1 to 3), then four participants with 20
  points each (ids 4 to 7).
\<close>

definition dbT :: db where
  "dbT = \<lparr>users = [participant 1 50 7 True, participant 2 40 6 True, participant 3 30 5 True,
                   participant 4 20 4 True, participant 5 20 4 True, participant 6 20 4 True,
                   participant 7 20 4 True],
           claims = [], nextId = 100, errlog = []\<rparr>"

section \<open>Properties of submission and invalidation\<close>

lemmas ledger_defs =
  submitClaim_def revokeClaim_def revokeFailed_def postSave_def saveFailed_def validateClaim_def
  findUserById_def findClaimById_def Let_def

lemmas example_defs =
  userX_def dbX_def reqX_def opsX_def userA_def userB_def dbAB_def participant_def dbL_def
  nowW_def dbW_def msPerDay_def dbT_def zoneW_def fixedZone_def

subsection \<open>The store primitives\<close>

lemma updateUserById_map:
  "distinct (map uid us) \<Longrightarrow>
     updateUserById i f us = map (\<lambda>u. if uid u = i then f u else u) us"
proof (induction us)
  case Nil
  then show ?case by simp
next
  case (Cons u us)
  show ?case
  proof (cases "uid u = i")
    case True
    from Cons.prems have "uid u \<notin> uid ` set us" by simp
    with True have "\<forall>v \<in> set us. uid v \<noteq> i" by blast
    then have "map (\<lambda>u. if uid u = i then f u else u) us = us"
      by (simp add: map_idI)
    with True show ?thesis by simp
  next
    case False
    with Cons show ?thesis by simp
  qed
qed

lemma updateUserById_uids:
  "(\<And>u. uid (f u) = uid u) \<Longrightarrow> map uid (updateUserById i f us) = map uid us"
  by (induction us) auto

lemma findUserById_Some: "findUserById us i = Some u \<Longrightarrow> u \<in> set us \<and> uid u = i"
  by (auto simp: findUserById_def find_Some_iff)



lemma findUserById_None: "findUserById us i = None \<Longrightarrow> \<forall>u \<in> set us. uid u \<noteq> i"
  by (auto simp: findUserById_def find_None_iff)

lemma findUserById_no_active:
  "\<not> (\<exists>u \<in> set us. uid u = i \<and> isActive u) \<Longrightarrow>
     (case findUserById us i of None \<Rightarrow> True | Some u \<Rightarrow> \<not> isActive u)"
  by (auto simp: findUserById_def split: option.splits dest: find_Some_iff[THEN iffD1])

lemma validClaimsOf_append:
  "validClaimsOf (cs @ [d]) j =
     validClaimsOf cs j @ (if userId d = j \<and> isValid d then [d] else [])"
  by (simp add: validClaimsOf_def)

subsection \<open>A submission keeps the aggregates in step\<close>

lemma postSave_consistent:
  assumes "distinct (map uid (users s))" and "consistent s"
  shows "consistent (postSave True tHook d (s\<lparr>claims := claims s @ [d], nextId := n\<rparr>))"
  using assms
  by (auto simp: consistent_def postSave_def updateUserById_map validClaimsOf_append)

lemma submitClaim_consistent:
  assumes "distinct (map uid (users s))" and "consistent s"
  shows "consistent (snd (submitClaim req draw tSave tHook True s))"
proof -
  have fail: "consistent (snd (saveFailed s))"
    using assms(2) by (simp add: saveFailed_def consistent_def)
  show ?thesis
    using assms fail postSave_consistent[OF assms]
    by (auto simp: submitClaim_def Let_def split: option.splits)
qed

subsection \<open>The invalidation of a valid claim keeps them in step\<close>

lemma invalidate_sum:
  assumes "findClaimById cs i = Some c0"
  shows "sum_list (map points (validClaimsOf (updateClaimById i (\<lambda>c. c\<lparr>isValid := False\<rparr>) cs) j))
         = sum_list (map points (validClaimsOf cs j))
           - (if userId c0 = j \<and> isValid c0 then points c0 else 0)"
  using assms
  by (induction cs) (auto simp: findClaimById_def validClaimsOf_def split: if_splits)

lemma invalidate_length:
  assumes "findClaimById cs i = Some c0"
  shows "int (length (validClaimsOf (updateClaimById i (\<lambda>c. c\<lparr>isValid := False\<rparr>) cs) j))
         = int (length (validClaimsOf cs j)) - (if userId c0 = j \<and> isValid c0 then 1 else 0)"
  using assms
  by (induction cs) (auto simp: findClaimById_def validClaimsOf_def split: if_splits)

lemma revokeClaim_consistent:
  assumes "distinct (map uid (users s))" and "consistent s"
    and "case findClaimById (claims s) i of None \<Rightarrow> True | Some c \<Rightarrow> isValid c"
  shows "consistent (snd (revokeClaim i True s))"
proof (cases "findClaimById (claims s) i")
  case None
  with assms(2) show ?thesis by (simp add: revokeClaim_def)
next
  case (Some c0)
  with assms(3) have v: "isValid c0" by simp
  note sm = invalidate_sum[OF Some] invalidate_length[OF Some]
  show ?thesis
  proof (cases "findUserById (users s) (userId c0)")
    case None
    from findUserById_None[OF None] assms(2) show ?thesis
      using Some None v
      by (auto simp: revokeClaim_def revokeFailed_def Let_def consistent_def sm)
  next
    case (Some u)
    with assms(1,2) v \<open>findClaimById (claims s) i = Some c0\<close> show ?thesis
      by (auto simp: revokeClaim_def Let_def consistent_def sm updateUserById_map)
  qed
qed

lemma step_uids: "map uid (users (step x s)) = map uid (users s)"
proof (cases x)
  case (Submit req draw tSave tHook updOk)
  then show ?thesis
    by (auto simp: submitClaim_def Let_def postSave_def saveFailed_def updateUserById_uids
        split: option.splits)
next
  case (Revoke i usersOk)
  then show ?thesis
    by (auto simp: revokeClaim_def revokeFailed_def Let_def updateUserById_uids
        split: option.splits)
qed

text \<open>
  C1 (as amended). From a state with distinct participant ids in which every
  participant's \<open>totalPoints\<close> is the sum of the points of their valid claims and
  \<open>claimsCount\<close> their number, any sequence of submissions and invalidations in which
  every update of the aggregates resolves (the one of the post-save hook and the one of
  the invalidation route) and no invalidation names an already invalid claim ends in such
  a state again.
\<close>

theorem undisturbed_consistent:
  assumes "distinct (map uid (users s))" and "consistent s" and "undisturbed ops s"
  shows "consistent (run ops s)"
  using assms
proof (induction ops arbitrary: s)
  case Nil
  then show ?case by simp
next
  case (Cons x xs)
  have d: "distinct (map uid (users (step x s)))"
    using Cons.prems(1) by (simp add: step_uids)
  have c: "consistent (step x s) \<and> undisturbed xs (step x s)"
  proof (cases x)
    case (Submit req draw tSave tHook updOk)
    with Cons.prems show ?thesis
      by (auto simp: submitClaim_consistent)
  next
    case (Revoke i usersOk)
    with Cons.prems show ?thesis
      by (auto simp: revokeClaim_consistent)
  qed
  with Cons.IH[OF d] show ?case by simp
qed

theorem undisturbed_consistent_witness:
  "distinct (map uid (users dbX)) \<and> consistent dbX \<and> undisturbed (opsX @ [Revoke 100 True]) dbX \<and>
   consistent (run (opsX @ [Revoke 100 True]) dbX) \<and>
   map (\<lambda>u. (totalPoints u, claimsCount u)) (users (run (opsX @ [Revoke 100 True]) dbX)) = [(5, 2)]"
proof -
  have h1: "distinct (map uid (users dbX))"
    by (simp add: example_defs)
  have h2: "consistent dbX"
    by (simp add: example_defs consistent_def validClaimsOf_def)
  have h3: "undisturbed (opsX @ [Revoke 100 True]) dbX"
    by (simp add: example_defs ledger_defs)
  have h4: "map (\<lambda>u. (totalPoints u, claimsCount u)) (users (run (opsX @ [Revoke 100 True]) dbX)) = [(5, 2)]"
    by (simp add: example_defs ledger_defs)
  from undisturbed_consistent[OF h1 h2 h3] h1 h2 h3 h4 show ?thesis by simp
qed

text \<open>
  C1 as stated fails: when the aggregate update of the post-save hook rejects, the
  submission is answered with the created claim, the claim is in the ledger and the
  participant's totals are not raised.
\<close>

theorem failed_hook_inconsistent:
  "fst (submitClaim (reqX 1 5) 0 1000 1001 False dbX) =
     Inr \<lparr>cid = 100, userId = 1, points = 5, claimType = Manual, isValid = True,
          createdAt = 1000\<rparr> \<and>
   map totalPoints (users (run [Submit (reqX 1 5) 0 1000 1001 False] dbX)) = [0] \<and>
   map points (validClaimsOf (claims (run [Submit (reqX 1 5) 0 1000 1001 False] dbX)) 1) = [5] \<and>
   \<not> consistent (run [Submit (reqX 1 5) 0 1000 1001 False] dbX)"
  by (simp add: example_defs ledger_defs consistent_def validClaimsOf_def)

subsection \<open>No operation repairs a shortfall\<close>










text \<open>
  Where an update of the aggregates rejects, the two sides can meet again by accident: a
  submission whose hook update fails, then an invalidation of that claim whose user update
  fails, leave no valid claim and totals 0 and 0.
\<close>

lemma failed_updates_cancel:
  "consistent (run [Submit (reqX 1 5) 0 1000 1001 False, Revoke 100 False] dbX)"
  by (simp add: example_defs ledger_defs consistent_def validClaimsOf_def)

text \<open>
  The rejected user update of an invalidation leaves the claim invalid and the totals as
  they were: the state is no longer consistent, with the totals above the ledger. Serving
  the same invalidation again, its update resolving, lowers them to the ledger's.
\<close>

lemma retried_revoke_consistent:
  "consistent (run (opsX @ [Revoke 100 False, Revoke 100 True]) dbX)"
  by (simp add: example_defs ledger_defs consistent_def validClaimsOf_def)

lemma failed_revoke_inconsistent:
  "map (\<lambda>u. (totalPoints u, claimsCount u)) (users (run (opsX @ [Revoke 100 False]) dbX))
     = [(10, 3)] \<and>
   map points (validClaimsOf (claims (run (opsX @ [Revoke 100 False]) dbX)) 1) = [3, 2] \<and>
   \<not> consistent (run (opsX @ [Revoke 100 False]) dbX)"
  by (simp add: example_defs ledger_defs consistent_def validClaimsOf_def)

text \<open>
  C2: the claim asks that a second invalidation of the same claim change nothing. The
  route decrements again: after claims of 5, 3 and 2 points the totals are (10, 3), after
  the first invalidation of the 5-point claim (5, 2), after the second (0, 1).
\<close>

theorem second_revoke_decrements_again:
  "map (\<lambda>u. (totalPoints u, claimsCount u)) (users (run opsX dbX)) = [(10, 3)] \<and>
   map (\<lambda>u. (totalPoints u, claimsCount u)) (users (run (opsX @ [Revoke 100 True]) dbX)) = [(5, 2)] \<and>
   map (\<lambda>u. (totalPoints u, claimsCount u)) (users (run (opsX @ [Revoke 100 True, Revoke 100 True]) dbX))
     = [(0, 1)]"
  by (simp add: example_defs ledger_defs)

text \<open>
  With a single claim of 5 points the second invalidation takes both aggregates below 0,
  the minimum the \<open>User\<close> schema declares for them.
\<close>

lemma repeated_revoke_negative:
  "map (\<lambda>u. (totalPoints u, claimsCount u))
     (users (run [Submit (reqX 1 5) 0 1000 1001 True, Revoke 100 True, Revoke 100 True] dbX)) = [(- 5, - 1)]"
  by (simp add: example_defs ledger_defs)

text \<open>An invalidation writes no \<open>lastActivity\<close>, whatever the state.\<close>

lemma revokeClaim_lastActivity:
  "map lastActivity (users (snd (revokeClaim i usersOk s))) = map lastActivity (users s)"
proof -
  have "map lastActivity (updateUserById j (\<lambda>u. u\<lparr>totalPoints := totalPoints u - p,
          claimsCount := claimsCount u - 1\<rparr>) us) = map lastActivity us" for j p us
    by (induction us) auto
  then show ?thesis
    by (auto simp: revokeClaim_def revokeFailed_def Let_def split: option.splits)
qed

text \<open>
  C8: the claim asks that an invalidation, like a submission, set \<open>lastActivity\<close> to the
  time of the operation. The third submission sets it to the instant its hook reads
  (3001); the invalidation served afterwards leaves that value.
\<close>

theorem revoke_keeps_lastActivity:
  "map lastActivity (users (run opsX dbX)) = [3001] \<and>
   map lastActivity (users (run (opsX @ [Revoke 100 True]) dbX)) = [3001]"
  by (simp add: example_defs ledger_defs)

text \<open>
  C9: a submission that names no existing active participant is answered with an error
  and leaves the whole state as it was: no claim is written and no participant's
  aggregates change.
\<close>

theorem submit_unknown_rejected:
  assumes "\<not> (\<exists>u \<in> set (users s). uid u = reqUserId req \<and> isActive u)"
  shows "\<exists>e. submitClaim req draw tSave tHook updOk s = (Inl e, s)"
  using findUserById_no_active[OF assms]
  by (auto simp: submitClaim_def Let_def split: option.splits)

theorem submit_unknown_rejected_witness:
  "\<not> (\<exists>u \<in> set (users dbX). uid u = reqUserId (reqX 2 5) \<and> isActive u) \<and>
   submitClaim (reqX 2 5) 0 1000 1001 True dbX = (Inl NotFound, dbX) \<and>
   \<not> (\<exists>u \<in> set (users dbL). uid u = reqUserId (reqX 6 5) \<and> isActive u) \<and>
   submitClaim (reqX 6 5) 0 1000 1001 True dbL = (Inl NotFound, dbL)"
proof -
  have h: "\<not> (\<exists>u \<in> set (users dbX). uid u = reqUserId (reqX 2 5) \<and> isActive u)"
    by (simp add: example_defs)
  have h': "\<not> (\<exists>u \<in> set (users dbL). uid u = reqUserId (reqX 6 5) \<and> isActive u)"
    by (simp add: example_defs)
  from submit_unknown_rejected[OF h, of 0 1000 1001 True]
  have a: "submitClaim (reqX 2 5) 0 1000 1001 True dbX = (Inl NotFound, dbX)"
    by (simp add: example_defs ledger_defs)
  from submit_unknown_rejected[OF h', of 0 1000 1001 True]
  have b: "submitClaim (reqX 6 5) 0 1000 1001 True dbL = (Inl NotFound, dbL)"
    by (simp add: example_defs ledger_defs)
  show ?thesis
    by (intro conjI h a h' b)
qed



section \<open>Properties of the rankings\<close>

lemmas ranking_defs =
  leaderboard_def getTopUsers_def limitDocs_def withRanks_def sortKey_def getRankBadge_def
  userPosition_def findUserById_def Let_def

subsection \<open>Ranks added to a result list\<close>

lemma map_doc_withRanks: "map doc (withRanks b xs) = xs"
  by (simp add: withRanks_def split_def comp_def)

lemma length_withRanks: "length (withRanks b xs) = length xs"
  by (simp add: withRanks_def)

lemma map_rank_withRanks: "map rank (withRanks b xs) = [b ..< b + length xs]"
proof -
  have "map rank (withRanks b xs) = map (\<lambda>p. fst p + b) (enumerate 0 xs)"
    by (simp add: withRanks_def split_def comp_def add.commute)
  also have "\<dots> = map (\<lambda>i. i + b) (map fst (enumerate 0 xs))"
    by (simp only: map_map comp_def)
  also have "\<dots> = [b ..< b + length xs]"
    by (simp only: map_fst_enumerate map_add_upt add.commute add_0)
  finally show ?thesis .
qed

lemma nth_withRanks:
  "k < length xs \<Longrightarrow> withRanks b xs ! k = \<lparr>doc = xs ! k, rank = b + k, badge = getRankBadge (b + k)\<rparr>"
  by (simp add: withRanks_def nth_enumerate_eq)

lemma sortKey_le:
  "sortKey u \<le> sortKey v \<longleftrightarrow>
     totalPoints v < totalPoints u \<or>
     (totalPoints v = totalPoints u \<and> userCreatedAt u \<le> userCreatedAt v)"
  by (auto simp: sortKey_def)

lemma sorted_limitDocs: "sorted (map f xs) \<Longrightarrow> sorted (map f (limitDocs n xs))"
  by (simp add: limitDocs_def take_map[symmetric] sorted_wrt_take del: take_map)

lemma getTopUsers_sorted: "sorted (map sortKey (getTopUsers n us))"
  by (simp add: getTopUsers_def sorted_limitDocs)

lemma set_limitDocs: "set (limitDocs n xs) \<subseteq> set xs"
  by (auto simp: limitDocs_def dest: in_set_takeD)

lemma getTopUsers_active: "u \<in> set (getTopUsers n us) \<Longrightarrow> u \<in> set us \<and> isActive u"
  using set_limitDocs[of n "sort_key sortKey (filter isActive us)"]
  by (auto simp: getTopUsers_def)

lemma length_getTopUsers:
  "length (getTopUsers n us) =
     (if n = 0 then length (filter isActive us) else min n (length (filter isActive us)))"
  by (simp add: getTopUsers_def limitDocs_def min.commute)

subsection \<open>The global leaderboard\<close>

text \<open>Sorting rearranges: every document occurs as often as before.\<close>

lemma count_list_insort_key: "count_list (insort_key f x xs) u = count_list (x # xs) u"
  by (induction xs) auto

lemma count_list_sort_key: "count_list (sort_key f xs) u = count_list xs u"
  by (induction xs) (simp_all add: sort_key_simps count_list_insort_key)

lemma sorted_limit_rest:
  assumes "sorted (map f xs)" and "x \<in> set (limitDocs n xs)" and "y \<in> set xs"
    and "y \<notin> set (limitDocs n xs)"
  shows "f x \<le> f y"
proof (cases "n = 0")
  case True
  with assms(3,4) show ?thesis by (simp add: limitDocs_def)
next
  case False
  with assms(2,4) have x: "x \<in> set (take n xs)" and "y \<notin> set (take n xs)"
    by (simp_all add: limitDocs_def)
  with assms(3) have y: "y \<in> set (drop n xs)"
    using set_append[of "take n xs" "drop n xs"] by auto
  from assms(1) have "sorted (map f (take n xs) @ map f (drop n xs))"
    by (simp flip: map_append)
  with x y show ?thesis
    by (auto simp: sorted_append)
qed

lemma distinct_map_sort_key:
  "distinct (map f (sort_key k xs)) = distinct (map f xs)"
proof -
  have "distinct (map f ys) \<longleftrightarrow> card (f ` set ys) = length ys" for ys
    using distinct_card[of "map f ys"] card_distinct[of "map f ys"] by auto
  from this[of "sort_key k xs"] this[of xs] show ?thesis by simp
qed

lemma getTopUsers_distinct:
  assumes "distinct (map uid us)"
  shows "distinct (map uid (getTopUsers n us))"
proof -
  from assms have "distinct (map uid (sort_key sortKey (filter isActive us)))"
    by (simp add: distinct_map_sort_key distinct_map_filter)
  then show ?thesis
    by (auto simp: getTopUsers_def limitDocs_def simp flip: take_map)
qed

lemma lbAB: "leaderboard 10 dbAB =
     [\<lparr>doc = userA, rank = 1, badge = Gold\<rparr>, \<lparr>doc = userB, rank = 2, badge = Silver\<rparr>]"
  by (simp add: example_defs ranking_defs)

lemma lbL: "map (\<lambda>e. (uid (doc e), totalPoints (doc e), rank e, badge e)) (leaderboard 3 dbL) =
     [(1, 50, 1, Gold), (2, 40, 2, Silver), (3, 30, 3, Bronze)]"
  by (simp add: example_defs ranking_defs)

text \<open>
  C4: the global leaderboard lists only active participants. There is an ordering of all
  the active participants, each as often as stored, descending in \<open>totalPoints\<close> and,
  among equal totals, ascending in registration, of which the leaderboard is the first
  \<open>limit\<close> entries (all of them for limit 0): every active participant left out stands
  no higher than any entry, and with distinct ids no participant is listed twice. The
  entries are numbered 1, 2, ..., N in that order, no rank twice, tied totals included.
\<close>

theorem leaderboard_positional:
  assumes "leaderboard n s = lb"
  shows "\<exists>ord.
         (\<forall>u. count_list ord u = count_list (filter isActive (users s)) u) \<and>
         (\<forall>i j. i < j \<and> j < length ord \<longrightarrow>
            totalPoints (ord ! j) < totalPoints (ord ! i) \<or>
            (totalPoints (ord ! j) = totalPoints (ord ! i) \<and>
             userCreatedAt (ord ! i) \<le> userCreatedAt (ord ! j))) \<and>
         map doc lb = (if n = 0 then ord else take n ord) \<and>
         map rank lb = [1 ..< Suc (length lb)] \<and>
         distinct (map rank lb) \<and>
         length lb = (if n = 0 then length (filter isActive (users s))
                      else min n (length (filter isActive (users s)))) \<and>
         (\<forall>e \<in> set lb. doc e \<in> set (users s) \<and> isActive (doc e)) \<and>
         (\<forall>i j. i < j \<and> j < length lb \<longrightarrow>
            totalPoints (doc (lb ! j)) < totalPoints (doc (lb ! i)) \<or>
            (totalPoints (doc (lb ! j)) = totalPoints (doc (lb ! i)) \<and>
             userCreatedAt (doc (lb ! i)) \<le> userCreatedAt (doc (lb ! j)))) \<and>
         (\<forall>u \<in> set (users s). isActive u \<and> u \<notin> doc ` set lb \<longrightarrow>
            (\<forall>e \<in> set lb. totalPoints u < totalPoints (doc e) \<or>
               (totalPoints u = totalPoints (doc e) \<and>
                userCreatedAt (doc e) \<le> userCreatedAt u))) \<and>
         (distinct (map uid (users s)) \<longrightarrow> distinct (map (\<lambda>e. uid (doc e)) lb))"
proof -
  define ord where "ord = sort_key sortKey (filter isActive (users s))"
  let ?top = "getTopUsers n (users s)"
  have top: "?top = limitDocs n ord"
    by (simp add: getTopUsers_def ord_def)
  have lb: "lb = withRanks 1 ?top"
    using assms by (simp add: leaderboard_def)
  have docs: "map doc lb = ?top"
    by (simp add: lb map_doc_withRanks)
  have len: "length lb = length ?top"
    by (simp add: lb length_withRanks)
  have srt: "sorted (map sortKey ord)"
    by (simp add: ord_def)
  have p: "\<forall>u. count_list ord u = count_list (filter isActive (users s)) u"
    by (simp add: ord_def count_list_sort_key)
  have oo: "\<forall>i j. i < j \<and> j < length ord \<longrightarrow>
            totalPoints (ord ! j) < totalPoints (ord ! i) \<or>
            (totalPoints (ord ! j) = totalPoints (ord ! i) \<and>
             userCreatedAt (ord ! i) \<le> userCreatedAt (ord ! j))"
  proof (intro allI impI)
    fix i j assume ij: "i < j \<and> j < length ord"
    with srt have "map sortKey ord ! i \<le> map sortKey ord ! j"
      by (intro sorted_nth_mono) auto
    with ij show "totalPoints (ord ! j) < totalPoints (ord ! i) \<or>
            (totalPoints (ord ! j) = totalPoints (ord ! i) \<and>
             userCreatedAt (ord ! i) \<le> userCreatedAt (ord ! j))"
      by (simp add: sortKey_le)
  qed
  have cut: "map doc lb = (if n = 0 then ord else take n ord)"
    by (simp add: docs top limitDocs_def)
  have a: "\<forall>e \<in> set lb. doc e \<in> set (users s) \<and> isActive (doc e)"
  proof
    fix e assume "e \<in> set lb"
    then have "doc e \<in> set (map doc lb)" by simp
    then show "doc e \<in> set (users s) \<and> isActive (doc e)"
      unfolding docs by (rule getTopUsers_active)
  qed
  have r: "map rank lb = [1 ..< Suc (length lb)]"
    by (simp add: lb map_rank_withRanks length_withRanks)
  have d: "distinct (map rank lb)"
    unfolding r by simp
  have l: "length lb = (if n = 0 then length (filter isActive (users s))
                        else min n (length (filter isActive (users s))))"
    by (simp only: len length_getTopUsers)
  have o: "\<forall>i j. i < j \<and> j < length lb \<longrightarrow>
            totalPoints (doc (lb ! j)) < totalPoints (doc (lb ! i)) \<or>
            (totalPoints (doc (lb ! j)) = totalPoints (doc (lb ! i)) \<and>
             userCreatedAt (doc (lb ! i)) \<le> userCreatedAt (doc (lb ! j)))"
  proof (intro allI impI)
    fix i j assume ij: "i < j \<and> j < length lb"
    then have "map sortKey ?top ! i \<le> map sortKey ?top ! j"
      using getTopUsers_sorted[of n "users s"] len
      by (intro sorted_nth_mono) auto
    moreover have "doc (lb ! i) = ?top ! i" "doc (lb ! j) = ?top ! j"
      using ij len by (simp_all add: lb nth_withRanks)
    ultimately show "totalPoints (doc (lb ! j)) < totalPoints (doc (lb ! i)) \<or>
            (totalPoints (doc (lb ! j)) = totalPoints (doc (lb ! i)) \<and>
             userCreatedAt (doc (lb ! i)) \<le> userCreatedAt (doc (lb ! j)))"
      using ij len by (simp add: sortKey_le)
  qed
  have dl: "doc ` set lb = set ?top"
    using docs by (metis set_map)
  have rest: "\<forall>u \<in> set (users s). isActive u \<and> u \<notin> doc ` set lb \<longrightarrow>
            (\<forall>e \<in> set lb. totalPoints u < totalPoints (doc e) \<or>
               (totalPoints u = totalPoints (doc e) \<and>
                userCreatedAt (doc e) \<le> userCreatedAt u))"
  proof (intro ballI impI)
    fix u e assume u: "u \<in> set (users s)" "isActive u \<and> u \<notin> doc ` set lb" and e: "e \<in> set lb"
    from e have "doc e \<in> set (limitDocs n ord)"
      using dl top by auto
    moreover from u have "u \<in> set ord" "u \<notin> set (limitDocs n ord)"
      using dl top by (simp_all add: ord_def)
    ultimately have "sortKey (doc e) \<le> sortKey u"
      using srt by (intro sorted_limit_rest[of sortKey ord _ n])
    then show "totalPoints u < totalPoints (doc e) \<or>
               (totalPoints u = totalPoints (doc e) \<and>
                userCreatedAt (doc e) \<le> userCreatedAt u)"
      by (simp only: sortKey_le)
  qed
  have once: "distinct (map uid (users s)) \<longrightarrow> distinct (map (\<lambda>e. uid (doc e)) lb)"
  proof
    assume "distinct (map uid (users s))"
    then have "distinct (map uid (map doc lb))"
      unfolding docs by (rule getTopUsers_distinct)
    then show "distinct (map (\<lambda>e. uid (doc e)) lb)"
      by (simp add: comp_def)
  qed
  show ?thesis
    apply (rule exI[of _ ord])
    apply (intro conjI)
    apply (rule p oo cut r d l a o rest once)+
    done
qed

theorem leaderboard_positional_witness:
  "map (\<lambda>u. (uid u, isActive u, totalPoints u)) (users dbL) =
     [(6, False, 60), (3, True, 30), (1, True, 50), (5, True, 10), (2, True, 40), (4, True, 20)] \<and>
   map (\<lambda>e. (uid (doc e), totalPoints (doc e), rank e, badge e)) (leaderboard 3 dbL) =
     [(1, 50, 1, Gold), (2, 40, 2, Silver), (3, 30, 3, Bronze)] \<and>
   map rank (leaderboard 3 dbL) = [1 ..< Suc (length (leaderboard 3 dbL))] \<and>
   distinct (map (\<lambda>e. uid (doc e)) (leaderboard 3 dbL)) \<and>
   leaderboard 10 dbAB =
     [\<lparr>doc = userA, rank = 1, badge = Gold\<rparr>, \<lparr>doc = userB, rank = 2, badge = Silver\<rparr>] \<and>
   totalPoints userA = totalPoints userB \<and> userCreatedAt userA < userCreatedAt userB"
proof -
  have us: "map (\<lambda>u. (uid u, isActive u, totalPoints u)) (users dbL) =
     [(6, False, 60), (3, True, 30), (1, True, 50), (5, True, 10), (2, True, 40), (4, True, 20)]"
    by (simp add: example_defs)
  have t: "totalPoints userA = totalPoints userB" "userCreatedAt userA < userCreatedAt userB"
    by (simp_all add: example_defs)
  have dL: "distinct (map uid (users dbL))"
    by (simp add: example_defs)
  from leaderboard_positional[of 3 dbL "leaderboard 3 dbL", OF refl]
  have r: "map rank (leaderboard 3 dbL) = [1 ..< Suc (length (leaderboard 3 dbL))]"
    and "distinct (map uid (users dbL)) \<longrightarrow> distinct (map (\<lambda>e. uid (doc e)) (leaderboard 3 dbL))"
    by blast+
  with dL have o: "distinct (map (\<lambda>e. uid (doc e)) (leaderboard 3 dbL))"
    by blast
  show ?thesis
    by (intro conjI us lbL r o lbAB t)
qed

subsection \<open>The rank of the position query\<close>

text \<open>
  C5: for an active participant P the position query answers with rank 1 + the number of
  active participants whose \<open>totalPoints\<close> is strictly greater than P's, so that active
  participants with equal totals get equal ranks, and a participant whom no active
  participant exceeds (two participants without points, say) gets rank 1.
\<close>

theorem position_competition_rank:
  assumes "findUserById (users s) i = Some u" and "isActive u"
  shows "\<exists>r. userPosition i s = Inr r \<and> doc (posUser r) = u \<and>
           rank (posUser r) =
             1 + length (filter (\<lambda>v. isActive v \<and> totalPoints u < totalPoints v) (users s)) \<and>
           (\<forall>j v r'. findUserById (users s) j = Some v \<and> isActive v \<and>
                     totalPoints v = totalPoints u \<and> userPosition j s = Inr r' \<longrightarrow>
                     rank (posUser r') = rank (posUser r)) \<and>
           ((\<forall>v \<in> set (users s). isActive v \<longrightarrow> totalPoints v \<le> totalPoints u) \<longrightarrow>
              rank (posUser r) = 1)"
proof -
  have z: "(\<forall>v \<in> set (users s). isActive v \<longrightarrow> totalPoints v \<le> totalPoints u) \<Longrightarrow>
        filter (\<lambda>v. isActive v \<and> totalPoints u < totalPoints v) (users s) = []"
    by (auto simp: filter_empty_conv)
  show ?thesis
    using assms z by (auto simp: userPosition_def Let_def)
qed

theorem position_competition_rank_witness:
  "findUserById (users dbAB) 1 = Some userA \<and> isActive userA \<and>
   findUserById (users dbAB) 2 = Some userB \<and> isActive userB \<and>
   totalPoints userA = 0 \<and> totalPoints userB = 0 \<and>
   (\<exists>r. userPosition 1 dbAB = Inr r \<and> rank (posUser r) = 1) \<and>
   (\<exists>r. userPosition 2 dbAB = Inr r \<and> rank (posUser r) = 1)"
proof -
  have a: "findUserById (users dbAB) 1 = Some userA" and a': "isActive userA"
    and b: "findUserById (users dbAB) 2 = Some userB" and b': "isActive userB"
    by (simp_all add: example_defs findUserById_def)
  have z: "totalPoints userA = 0 \<and> totalPoints userB = 0"
    by (simp add: example_defs)
  have top: "\<forall>v \<in> set (users dbAB). isActive v \<longrightarrow> totalPoints v \<le> 0"
    by (simp add: example_defs)
  from position_competition_rank[OF a a'] position_competition_rank[OF b b'] top z
  have "(\<exists>r. userPosition 1 dbAB = Inr r \<and> rank (posUser r) = 1) \<and>
        (\<exists>r. userPosition 2 dbAB = Inr r \<and> rank (posUser r) = 1)"
    by auto
  with a a' b b' z show ?thesis by simp
qed

subsection \<open>The context of the position query\<close>

text \<open>The number of documents a filter keeps does not depend on their order.\<close>

lemma length_filter_insort_key:
  "length (filter P (insort_key f x xs)) = length (filter P (x # xs))"
  by (induction xs) auto

lemma length_filter_sort_key: "length (filter P (sort_key f xs)) = length (filter P xs)"
  by (induction xs) (simp_all add: sort_key_simps length_filter_insort_key)

lemma filter_takeWhile_sorted:
  assumes "sorted (map f ys)" and "\<And>a b. f a \<le> f b \<Longrightarrow> P b \<Longrightarrow> P a"
  shows "filter P ys = takeWhile P ys"
  using assms(1)
proof (induction ys)
  case Nil
  then show ?case by simp
next
  case (Cons y ys)
  show ?case
  proof (cases "P y")
    case True
    with Cons show ?thesis by simp
  next
    case False
    have "\<not> P z" if "z \<in> set ys" for z
      using Cons.prems that assms(2)[of y z] False by auto
    then have "filter P ys = []"
      by (simp add: filter_empty_conv)
    with False show ?thesis by simp
  qed
qed

lemma length_takeWhile_less:
  "x \<in> set xs \<Longrightarrow> \<not> P x \<Longrightarrow> length (takeWhile P xs) < length xs"
  by (induction xs) auto

lemma position_index:
  assumes u: "u \<in> set us" "isActive u"
    and uniq: "\<forall>v \<in> set us. isActive v \<and> totalPoints v = totalPoints u \<longrightarrow> v = u"
  defines "ord \<equiv> sort_key sortKey (filter isActive us)"
    and "k \<equiv> length (filter (\<lambda>v. isActive v \<and> totalPoints u < totalPoints v) us)"
  shows "k < length ord \<and> ord ! k = u"
proof -
  let ?P = "\<lambda>v. totalPoints u < totalPoints v"
  have srt: "sorted (map sortKey ord)"
    by (simp add: ord_def)
  have "k = length (filter ?P (filter isActive us))"
    by (simp add: k_def conj_commute)
  also have "\<dots> = length (filter ?P ord)"
    by (simp only: ord_def length_filter_sort_key)
  also have "filter ?P ord = takeWhile ?P ord"
    using srt by (rule filter_takeWhile_sorted) (auto simp: sortKey_le)
  finally have k: "k = length (takeWhile ?P ord)" .
  have mem: "u \<in> set ord"
    using u by (simp add: ord_def)
  have lt: "k < length ord"
    unfolding k using mem by (rule length_takeWhile_less) simp
  have nP: "\<not> ?P (ord ! k)"
    using lt unfolding k by (rule nth_length_takeWhile)
  from mem obtain m where m: "m < length ord" "ord ! m = u"
    by (auto simp: in_set_conv_nth)
  have km: "k \<le> m"
  proof (rule ccontr)
    assume "\<not> k \<le> m"
    then have "m < length (takeWhile ?P ord)" by (simp add: k)
    then have "takeWhile ?P ord ! m \<in> set (takeWhile ?P ord)"
      and "takeWhile ?P ord ! m = ord ! m"
      by (rule nth_mem, rule takeWhile_nth)
    with m(2) have "u \<in> set (takeWhile ?P ord)" by simp
    then have "?P u" by (auto dest: set_takeWhileD)
    then show False by simp
  qed
  have "ord ! k = u"
  proof (cases "k = m")
    case True
    with m show ?thesis by simp
  next
    case False
    with km have "k < m" by simp
    with srt m(1) have "map sortKey ord ! k \<le> map sortKey ord ! m"
      by (intro sorted_nth_mono) auto
    with lt m have "sortKey (ord ! k) \<le> sortKey u" by simp
    with nP have eq: "totalPoints (ord ! k) = totalPoints u"
      by (auto simp: sortKey_le)
    have "ord ! k \<in> set ord" using lt by simp
    then have "ord ! k \<in> set us" "isActive (ord ! k)" by (simp_all add: ord_def)
    with eq uniq show ?thesis by blast
  qed
  with lt show ?thesis by simp
qed

text \<open>
  C7 (as amended). For an active participant P whose \<open>totalPoints\<close> no other active
  participant has, the context is the run of at most five consecutive entries of the
  ordering (\<open>totalPoints\<close> descending, registration ascending) that starts two places
  above P, or at the top when P is first or second, and ends with the list: near rank 1
  the window slides down to the first five, near the last rank it is cut short. Its
  entries carry their positions in the ordering as ranks.
\<close>

theorem position_context:
  assumes "findUserById (users s) i = Some u" and "isActive u"
    and "\<forall>v \<in> set (users s). isActive v \<and> totalPoints v = totalPoints u \<longrightarrow> v = u"
    and "ord = sort_key sortKey (filter isActive (users s))"
  shows "\<exists>r k. userPosition i s = Inr r \<and> k < length ord \<and> ord ! k = u \<and>
           rank (posUser r) = Suc k \<and>
           map (\<lambda>e. fst (doc e)) (posContext r) = take 5 (drop (k - 2) ord) \<and>
           map (\<lambda>e. snd (doc e)) (posContext r) = map (\<lambda>v. uid v = i) (take 5 (drop (k - 2) ord)) \<and>
           map rank (posContext r) = [max 1 (k - 1) ..< max 1 (k - 1) + length (posContext r)]"
proof -
  define k where "k = length (filter (\<lambda>v. isActive v \<and> totalPoints u < totalPoints v) (users s))"
  define ctx where "ctx = map (\<lambda>v. (v, uid v = i)) (take 5 (drop (k - 2) ord))"
  define r where "r = \<lparr>posUser = \<lparr>doc = u, rank = Suc k, badge = getRankBadge (Suc k)\<rparr>,
                       posContext = withRanks (max 1 (k - 1)) ctx\<rparr>"
  from assms(1) have mem: "u \<in> set (users s)"
    by (simp add: findUserById_Some)
  from position_index[OF mem assms(2,3)] have idx: "k < length ord \<and> ord ! k = u"
    by (simp add: k_def assms(4))
  have a: "nat (max 0 (int (k + 1) - int 2 - 1)) = k - 2"
    by simp
  have b: "nat (max 1 (int (k + 1) - int 2)) = max 1 (k - 1)"
    by (cases k) auto
  have res: "userPosition i s = Inr r"
    using assms(1,2) a b
    by (simp add: userPosition_def Let_def r_def ctx_def k_def assms(4))
  have c1: "map (\<lambda>e. fst (doc e)) (posContext r) = take 5 (drop (k - 2) ord)"
  proof -
    have "map (\<lambda>e. fst (doc e)) (posContext r) = map fst (map doc (posContext r))"
      by (simp add: comp_def)
    also have "\<dots> = take 5 (drop (k - 2) ord)"
      by (simp add: r_def map_doc_withRanks ctx_def comp_def)
    finally show ?thesis .
  qed
  have c2: "map (\<lambda>e. snd (doc e)) (posContext r) = map (\<lambda>v. uid v = i) (take 5 (drop (k - 2) ord))"
  proof -
    have "map (\<lambda>e. snd (doc e)) (posContext r) = map snd (map doc (posContext r))"
      by (simp add: comp_def)
    also have "\<dots> = map (\<lambda>v. uid v = i) (take 5 (drop (k - 2) ord))"
      by (simp add: r_def map_doc_withRanks ctx_def comp_def)
    finally show ?thesis .
  qed
  have c3: "map rank (posContext r) = [max 1 (k - 1) ..< max 1 (k - 1) + length (posContext r)]"
    by (simp add: r_def map_rank_withRanks length_withRanks)
  have c4: "rank (posUser r) = Suc k"
    by (simp add: r_def)
  from res idx c1 c2 c3 c4 show ?thesis by blast
qed

theorem position_context_witness:
  "\<exists>r. userPosition 3 dbL = Inr r \<and> rank (posUser r) = 3 \<and>
       map (\<lambda>e. uid (fst (doc e))) (posContext r) = [1, 2, 3, 4, 5] \<and>
       map (\<lambda>e. snd (doc e)) (posContext r) = [False, False, True, False, False] \<and>
       map rank (posContext r) = [1, 2, 3, 4, 5]"
proof -
  let ?u = "participant 3 30 5 True"
  let ?ord = "[participant 1 50 7 True, participant 2 40 6 True, ?u,
               participant 4 20 4 True, participant 5 10 2 True]"
  have h1: "findUserById (users dbL) 3 = Some ?u"
    by (simp add: example_defs findUserById_def)
  have h2: "isActive ?u"
    by (simp add: example_defs)
  have h3: "\<forall>v \<in> set (users dbL). isActive v \<and> totalPoints v = totalPoints ?u \<longrightarrow> v = ?u"
    by (simp add: example_defs)
  have h4: "?ord = sort_key sortKey (filter isActive (users dbL))"
    by (simp add: example_defs sortKey_def)
  from position_context[OF h1 h2 h3 h4] obtain r k where
    r: "userPosition 3 dbL = Inr r" and k: "k < length ?ord" "?ord ! k = ?u"
    and rk: "rank (posUser r) = Suc k"
    and c1: "map (\<lambda>e. fst (doc e)) (posContext r) = take 5 (drop (k - 2) ?ord)"
    and c2: "map (\<lambda>e. snd (doc e)) (posContext r) =
               map (\<lambda>v. uid v = 3) (take 5 (drop (k - 2) ?ord))"
    and c3: "map rank (posContext r) = [max 1 (k - 1) ..< max 1 (k - 1) + length (posContext r)]"
    by blast
  from k(1) consider "k = 0" | "k = 1" | "k = 2" | "k = 3" | "k = 4"
    by fastforce
  then have k2: "k = 2"
    using k(2) by cases (simp_all add: example_defs)
  have len: "length (posContext r) = 5"
    using arg_cong[OF c1, of length] by (simp add: k2)
  have ids: "map (\<lambda>e. uid (fst (doc e))) (posContext r) = [1, 2, 3, 4, 5]"
    using arg_cong[OF c1, of "map uid"] by (simp add: k2 comp_def example_defs)
  have cur: "map (\<lambda>e. snd (doc e)) (posContext r) = [False, False, True, False, False]"
    using c2 by (simp add: k2 example_defs)
  have rks: "map rank (posContext r) = [1, 2, 3, 4, 5]"
    using c3 by (simp add: k2 len upt_rec)
  from r rk k2 ids cur rks show ?thesis by simp
qed

text \<open>
  C7 as stated fails near the last rank: for the last of five participants the window is
  not moved up to five entries, the context holds the third, the fourth and the fifth.
\<close>

theorem context_cut_at_last_rank:
  "map uid (sort_key sortKey (filter isActive (users dbL))) = [1, 2, 3, 4, 5] \<and>
   map_sum id (\<lambda>r. map (\<lambda>e. uid (fst (doc e))) (posContext r)) (userPosition 5 dbL)
     = Inr [3, 4, 5]"
  by (simp add: example_defs ranking_defs)

text \<open>
  Where participants share P's total the window is placed by P's rank, the same for all
  of them, and not by P's place in the ordering: the last of four participants with 20
  points, seventh in the ordering, is not among the five entries of its own context.
\<close>

lemma context_of_tied_participant:
  "map uid (sort_key sortKey (filter isActive (users dbT))) = [1, 2, 3, 4, 5, 6, 7] \<and>
   map_sum id (\<lambda>r. (rank (posUser r), map (\<lambda>e. uid (fst (doc e))) (posContext r)))
     (userPosition 7 dbT) = Inr (4, [2, 3, 4, 5, 6])"
  by (simp add: example_defs ranking_defs)

subsection \<open>The leaderboard of a period\<close>






subsection \<open>The windows of the periods\<close>


lemma getDateRange_other:
  "period \<notin> {''today'', ''week'', ''month'', ''year''} \<Longrightarrow> getDateRange z period now start0 = None"
  by (simp add: getDateRange_def)







subsection \<open>The ranking of a period\<close>











end
